theory Spec2Isabelle
  imports Complex_Main
begin

section \<open>Data model\<close>

text \<open>
  The type definitions of \<^verbatim>\<open>src/App.tsx\<close>. A \<^verbatim>\<open>File\<close> is kept with the three things the
  program reads from it: its name, its MIME type, and the duration that the metadata probe
  (\<^verbatim>\<open>onloadedmetadata\<close> resolving with \<^verbatim>\<open>el.duration\<close>) reports for it. JavaScript
  numbers holding durations and volumes are idealised as exact rationals (no rounding, no
  \<^verbatim>\<open>NaN\<close>, no \<^verbatim>\<open>Infinity\<close>); the slide interval only ever holds integers. What
  rounding can do to the fade-out of the volume is bounded separately.
\<close>

record File =
  file_name :: string
  file_type :: string
  file_duration :: rat

text \<open>\<^verbatim>\<open>type MediaFile = ImageFile | VideoFile\<close>; only an image has the optional caption.\<close>

datatype media_file =
  ImageFile (mf_id: string) (mf_file: File) (previewUrl: string) (caption: "string option")
| VideoFile (mf_id: string) (mf_file: File) (previewUrl: string)

fun is_image :: "media_file \<Rightarrow> bool" where
  "is_image (ImageFile _ _ _ _) = True"
| "is_image (VideoFile _ _ _) = False"

fun is_video :: "media_file \<Rightarrow> bool" where
  "is_video (ImageFile _ _ _ _) = False"
| "is_video (VideoFile _ _ _) = True"

text \<open>Decimal rendering of a number inside a template string.\<close>

fun string_of_nat :: "nat \<Rightarrow> string" where
  "string_of_nat n =
     (if n < 10 then [''0123456789'' ! n]
      else string_of_nat (n div 10) @ [''0123456789'' ! (n mod 10)])"

definition string_of_int :: "int \<Rightarrow> string" where
  "string_of_int i = (if i < 0 then CHR ''-'' # string_of_nat (nat (- i)) else string_of_nat (nat i))"

text \<open>Media lists for the examples: \<open>n\<close> images with ids of their own.\<close>

definition image_no :: "nat \<Rightarrow> media_file" where
  "image_no k =
     ImageFile (''img'' @ string_of_nat k @ ''.png-1'')
       \<lparr>file_name = ''img'' @ string_of_nat k @ ''.png'', file_type = ''image/png'', file_duration = 0\<rparr>
       (''blob:'' @ string_of_nat k) None"

definition images :: "nat \<Rightarrow> media_file list" where
  "images n = map image_no [0..<n]"

section \<open>Auto-adjustment controller\<close>

text \<open>
  The state of \<^verbatim>\<open>App\<close> that the slide speed auto-adjustment effect reads and writes:
  the \<^verbatim>\<open>useState\<close> cells \<^verbatim>\<open>media\<close>, \<^verbatim>\<open>audioFile\<close>, \<^verbatim>\<open>interval\<close>,
  \<^verbatim>\<open>adjustmentNotification\<close> and the ref \<^verbatim>\<open>isAutoAdjusting\<close>.
\<close>

record app_state =
  media :: "media_file list"
  audioFile :: "File option"
  interval :: int
  adjustmentNotification :: "string option"
  isAutoAdjusting :: bool

text \<open>The writes the effect can issue, kept in program order.\<close>

datatype action =
  Set_isAutoAdjusting bool
| SetIntervalValue int
| SetAdjustmentNotification "string option"

fun perform :: "action \<Rightarrow> app_state \<Rightarrow> app_state" where
  "perform (Set_isAutoAdjusting b) s = s\<lparr>isAutoAdjusting := b\<rparr>"
| "perform (SetIntervalValue n) s = s\<lparr>interval := n\<rparr>"
| "perform (SetAdjustmentNotification m) s = s\<lparr>adjustmentNotification := m\<rparr>"

definition performs :: "action list \<Rightarrow> app_state \<Rightarrow> app_state" where
  "performs acts s = foldl (\<lambda>st a. perform a st) s acts"

fun is_interval_write :: "action \<Rightarrow> bool" where
  "is_interval_write (SetIntervalValue _) = True"
| "is_interval_write _ = False"

text \<open>\<^verbatim>\<open>if (adjustmentNotification)\<close>: \<^verbatim>\<open>null\<close> and the empty string are falsy.\<close>

definition truthy :: "string option \<Rightarrow> bool" where
  "truthy m = (case m of None \<Rightarrow> False | Some t \<Rightarrow> t \<noteq> [])"

text \<open>\<^verbatim>\<open>imageCount\<close> of the \<^verbatim>\<open>useMemo\<close> over \<^verbatim>\<open>media\<close>.\<close>

definition imageCount :: "app_state \<Rightarrow> nat" where
  "imageCount s = length (filter is_image (media s))"

definition adjusted_notice :: "int \<Rightarrow> string" where
  "adjusted_notice newInterval =
     ''Slide speed automatically adjusted to '' @ string_of_int newInterval @ ''s to match song length.''"

definition minimum_notice :: string where
  "minimum_notice = ''Song is shorter than video content. Slide speed set to minimum (1s).''"

text \<open>
  The body of \<^verbatim>\<open>calculateAndAdjust\<close> after its two awaits (lines 608--630), given the
  probed durations. \<open>r\<close> holds the values of the render whose effect created the closure:
  the comparisons read \<open>interval r\<close>, \<open>imageCount r\<close> and \<open>adjustmentNotification r\<close>, not
  the live state. The effect only calls \<^verbatim>\<open>calculateAndAdjust\<close> when \<open>imageCount r \<noteq> 0\<close>,
  so the division is never by zero there.
\<close>

definition adjust_after_probes :: "app_state \<Rightarrow> rat \<Rightarrow> rat list \<Rightarrow> action list" where
  "adjust_after_probes r audioDuration videoDurations =
     (let totalVideoDuration = foldl (+) 0 videoDurations;
          currentTotalSlideshowDuration = of_int (int (imageCount r) * interval r) + totalVideoDuration
      in if audioDuration < currentTotalSlideshowDuration then
           (let availableTimeForImages = audioDuration - totalVideoDuration in
            if availableTimeForImages > 0 then
              (let newInterval = max 1 \<lfloor>availableTimeForImages / of_nat (imageCount r)\<rfloor> in
               if newInterval \<noteq> interval r then
                 [Set_isAutoAdjusting True, SetIntervalValue newInterval,
                  SetAdjustmentNotification (Some (adjusted_notice newInterval))]
               else [])
            else
              (if interval r \<noteq> 1 then
                 [Set_isAutoAdjusting True, SetIntervalValue 1,
                  SetAdjustmentNotification (Some minimum_notice)]
               else []))
         else (if truthy (adjustmentNotification r) then [SetAdjustmentNotification None] else []))"

text \<open>
  \<^verbatim>\<open>calculateAndAdjust\<close> with its probes: the audio file and every video of the captured
  media list are probed, then the body above runs.
\<close>

definition calculateAndAdjust :: "app_state \<Rightarrow> File \<Rightarrow> action list" where
  "calculateAndAdjust r audio =
     adjust_after_probes r (file_duration audio)
       (map (\<lambda>v. file_duration (mf_file v)) (filter is_video (media r)))"

text \<open>
  The synchronous part of the effect (lines 574--583 and 633): the writes it issues at once,
  and the computation it starts, if any (the closure's render values and the audio file).
\<close>

definition autoAdjustEffect :: "app_state \<Rightarrow> action list \<times> (app_state \<times> File) option" where
  "autoAdjustEffect s =
     (if isAutoAdjusting s then ([Set_isAutoAdjusting False], None)
      else case audioFile s of
        None \<Rightarrow> (if truthy (adjustmentNotification s) then [SetAdjustmentNotification None] else [], None)
      | Some audio \<Rightarrow>
          if imageCount s = 0 then
            (if truthy (adjustmentNotification s) then [SetAdjustmentNotification None] else [], None)
          else ([], Some (s, audio)))"

text \<open>
  One invocation of the effect whose computation resolves before anything else happens:
  all the writes, in order.
\<close>

definition invoke :: "app_state \<Rightarrow> action list" where
  "invoke s =
     (case autoAdjustEffect s of
        (w, None) \<Rightarrow> w
      | (w, Some (r, audio)) \<Rightarrow> w @ calculateAndAdjust r audio)"

text \<open>
  The dependency array of the effect: React invokes the effect again after a render in which
  one of these values changed.
\<close>

definition deps :: "app_state \<Rightarrow> File option \<times> media_file list \<times> int \<times> nat \<times> string option" where
  "deps s = (audioFile s, media s, interval s, imageCount s, adjustmentNotification s)"


text \<open>Scenario B of the specification: ten images, interval 5, no video, 20 seconds of audio.\<close>

definition song20 :: File where
  "song20 = \<lparr>file_name = ''song.mp3'', file_type = ''audio/mpeg'', file_duration = 20\<rparr>"

definition scenarioB :: app_state where
  "scenarioB =
     \<lparr>media = images 10,
      audioFile = Some song20,
      interval = 5, adjustmentNotification = None, isAutoAdjusting = False\<rparr>"

text \<open>
  The editing session as a whole, for overlapping computations: the live state and the
  computations that have been started and have not resolved yet. An outside change
  (\<^verbatim>\<open>setIntervalValue\<close> from a speed button, \<^verbatim>\<open>setAudioFile\<close>, \<^verbatim>\<open>setMedia\<close>)
  or the resolution of a computation is followed by React running the effect again while
  a dependency differs from the one of the previous render.
\<close>

record session =
  app :: app_state
  pending :: "(app_state \<times> File) list"

datatype event =
  UserSetInterval int
| UserSetAudio File
| UserSetMedia "media_file list"
| Resolve nat

definition run_effect :: "session \<Rightarrow> session" where
  "run_effect y =
     (case autoAdjustEffect (app y) of
        (w, c) \<Rightarrow> \<lparr>app = performs w (app y),
                    pending = pending y @ (case c of None \<Rightarrow> [] | Some t \<Rightarrow> [t])\<rparr>)"

text \<open>
  React after a change: while the dependencies differ from those of the previous render the
  effect runs again, here at most the given number of times; \<open>None\<close> when they have not
  settled by then.
\<close>

fun rerender :: "nat \<Rightarrow> app_state \<Rightarrow> session \<Rightarrow> session option" where
  "rerender 0 prev y = (if deps (app y) = deps prev then Some y else None)"
| "rerender (Suc k) prev y =
     (if deps (app y) = deps prev then Some y else rerender k (app y) (run_effect y))"

text \<open>A computation resolving: its writes land on the live state, whatever that is by now.\<close>

definition resolve :: "nat \<Rightarrow> session \<Rightarrow> session" where
  "resolve i y =
     (if i < length (pending y) then
        (case pending y ! i of
           (r, audio) \<Rightarrow>
             \<lparr>app = performs (calculateAndAdjust r audio) (app y),
              pending = take i (pending y) @ drop (Suc i) (pending y)\<rparr>)
      else y)"

fun occur :: "event \<Rightarrow> session \<Rightarrow> session option" where
  "occur (UserSetInterval n) y = rerender 3 (app y) (y\<lparr>app := (app y)\<lparr>interval := n\<rparr>\<rparr>)"
| "occur (UserSetAudio f) y = rerender 3 (app y) (y\<lparr>app := (app y)\<lparr>audioFile := Some f\<rparr>\<rparr>)"
| "occur (UserSetMedia m) y = rerender 3 (app y) (y\<lparr>app := (app y)\<lparr>media := m\<rparr>\<rparr>)"
| "occur (Resolve i) y = rerender 3 (app y) (resolve i y)"

fun occur_all :: "event list \<Rightarrow> session \<Rightarrow> session option" where
  "occur_all [] y = Some y"
| "occur_all (e # es) y = (case occur e y of None \<Rightarrow> None | Some y' \<Rightarrow> occur_all es y')"

text \<open>The session right after mounting with the state of scenario B, and a longer song.\<close>

definition mountedB :: session where
  "mountedB = run_effect \<lparr>app = scenarioB, pending = []\<rparr>"

definition song60 :: File where
  "song60 = \<lparr>file_name = ''long.mp3'', file_type = ''audio/mpeg'', file_duration = 60\<rparr>"

text \<open>
  The session once the user has replaced the song of scenario B by the longer one before the
  first probe resolved: two computations are in flight, the older one with the old song.
\<close>

definition latestB :: app_state where
  "latestB = scenarioB\<lparr>audioFile := Some song60\<rparr>"

definition overlapB :: session where
  "overlapB = \<lparr>app = latestB, pending = [(scenarioB, song20), (latestB, song60)]\<rparr>"

text \<open>What the user sees of a session: the interval and the notice.\<close>

definition shown :: "session \<Rightarrow> int \<times> string option" where
  "shown y = (interval (app y), adjustmentNotification (app y))"


section \<open>Playback state machine\<close>

text \<open>
  \<^verbatim>\<open>SlideshowPlayer\<close>: its props \<^verbatim>\<open>media\<close> and \<^verbatim>\<open>interval\<close>, its state
  \<^verbatim>\<open>currentIndex\<close>, the volume and position of its audio element, and
  \<^verbatim>\<open>fadeOutIntervalRef\<close>. A running fade timer is kept as the \<^verbatim>\<open>volumeDecrement\<close> its
  callback closes over. The component is only mounted with a non-empty media list
  (\<^verbatim>\<open>isReadyToPlay\<close>), and \<^verbatim>\<open>currentIndex\<close> stays below its length.
\<close>

record player =
  pl_media :: "media_file list"
  pl_interval :: int
  currentIndex :: nat
  volume :: rat
  currentTime :: rat
  fadeOutIntervalRef :: "rat option"

datatype mechanism = SlideTimer int | VideoEnded

text \<open>\<^verbatim>\<open>setCurrentIndex(prev => (prev + 1) % media.length)\<close>.\<close>

definition advanceSlide :: "player \<Rightarrow> player" where
  "advanceSlide p = p\<lparr>currentIndex := (currentIndex p + 1) mod length (pl_media p)\<rparr>"

text \<open>
  The slide timer effect (lines 1100--1113): the period in milliseconds of the timer it
  arms, if it arms one.
\<close>

definition slideTimer :: "player \<Rightarrow> int option" where
  "slideTimer p =
     (if length (pl_media p) < 2 then None
      else if currentIndex p < length (pl_media p) \<and> is_image (pl_media p ! currentIndex p)
           then Some (pl_interval p * 1000)
           else None)"

text \<open>
  The \<^verbatim>\<open>video\<close> element is rendered for the current item when it is a video, always with
  \<^verbatim>\<open>onEnded={advanceSlide}\<close> (lines 1201--1209).
\<close>

definition videoOnEnded :: "player \<Rightarrow> bool" where
  "videoOnEnded p = (currentIndex p < length (pl_media p) \<and> is_video (pl_media p ! currentIndex p))"

definition armed :: "player \<Rightarrow> mechanism list" where
  "armed p =
     (case slideTimer p of None \<Rightarrow> [] | Some ms \<Rightarrow> [SlideTimer ms]) @
     (if videoOnEnded p then [VideoEnded] else [])"

text \<open>
  The audio effect (lines 1126--1159), run when the index, the length or the interval changed.
  The \<^verbatim>\<open>audio\<close> element is rendered unconditionally, so \<^verbatim>\<open>audioRef.current\<close> is set
  whenever the effect runs.
\<close>

definition audioEffect :: "player \<Rightarrow> player" where
  "audioEffect p =
     (let p1 = p\<lparr>fadeOutIntervalRef := None\<rparr>;
          p2 = (if currentIndex p1 = 0 then p1\<lparr>volume := 1, currentTime := 0\<rparr> else p1)
      in if int (currentIndex p2) = int (length (pl_media p2)) - 1 \<and> length (pl_media p2) > 1 then
           (let fadeDurationMs = pl_interval p2 * 1000 in
            if fadeDurationMs \<le> 0 then p2
            else
              (let tickIntervalMs = 50;
                   totalTicks = of_int fadeDurationMs / of_int tickIntervalMs;
                   volumeDecrement = volume p2 / totalTicks
               in p2\<lparr>fadeOutIntervalRef := Some volumeDecrement\<rparr>))
         else p2)"

text \<open>One firing of the fade timer's callback (lines 1149--1157); nothing fires when no timer runs.\<close>

definition fadeTick :: "player \<Rightarrow> player" where
  "fadeTick p =
     (case fadeOutIntervalRef p of
        None \<Rightarrow> p
      | Some volumeDecrement \<Rightarrow>
          (let p1 = p\<lparr>volume := max 0 (volume p - volumeDecrement)\<rparr>
           in if volume p1 \<le> 0 then p1\<lparr>fadeOutIntervalRef := None\<rparr> else p1))"

text \<open>
  What can happen to an open player. An advance that leaves \<^verbatim>\<open>currentIndex\<close> the same
  value causes no render, so no effect runs again.
\<close>

datatype player_event = TimerFired | VideoHasEnded | FadeTimerFired

definition advanced :: "player \<Rightarrow> player" where
  "advanced p =
     (let p' = advanceSlide p in if currentIndex p' = currentIndex p then p else audioEffect p')"

fun player_step :: "player \<Rightarrow> player_event \<Rightarrow> player" where
  "player_step p TimerFired = (if slideTimer p = None then p else advanced p)"
| "player_step p VideoHasEnded = (if videoOnEnded p then advanced p else p)"
| "player_step p FadeTimerFired = fadeTick p"

definition a_video :: media_file where
  "a_video = VideoFile ''clip.mp4-1''
     \<lparr>file_name = ''clip.mp4'', file_type = ''video/mp4'', file_duration = 10\<rparr> ''blob:v''"

definition an_image :: media_file where
  "an_image = ImageFile ''a.png-1''
     \<lparr>file_name = ''a.png'', file_type = ''image/png'', file_duration = 0\<rparr> ''blob:a'' None"

definition single_video_player :: player where
  "single_video_player =
     \<lparr>pl_media = [a_video], pl_interval = 5, currentIndex = 0, volume = 1, currentTime = 0,
      fadeOutIntervalRef = None\<rparr>"

text \<open>Scenario D of the specification: three images, interval 4, the last slide being entered.\<close>

definition scenarioD :: player where
  "scenarioD =
     \<lparr>pl_media = images 3, pl_interval = 4, currentIndex = 2, volume = 1,
      currentTime = 7, fadeOutIntervalRef = None\<rparr>"

text \<open>
  The player as mounted: index 0, and the audio effect has run once on the new audio element
  (whose volume is 1).
\<close>

definition mount :: "media_file list \<Rightarrow> int \<Rightarrow> player" where
  "mount m i =
     audioEffect \<lparr>pl_media = m, pl_interval = i, currentIndex = 0, volume = 1, currentTime = 0,
                  fadeOutIntervalRef = None\<rparr>"

text \<open>Away from the last slide the volume is full and no fade timer runs.\<close>

definition between_fades :: "player \<Rightarrow> bool" where
  "between_fades p =
     (currentIndex p < length (pl_media p) \<and>
      (currentIndex p \<noteq> length (pl_media p) - 1 \<longrightarrow> volume p = 1 \<and> fadeOutIntervalRef p = None))"

text \<open>
  The callback of the fade timer when the subtraction is not exact: \<open>fl\<close> stands for the
  rounding of its result to a number the machine represents. With the identity for \<open>fl\<close>
  this is \<open>fadeTick\<close>. \<open>round_grid b\<close> is one such rounding, to the nearest multiple of
  \<open>1 / 2 ^ b\<close>.
\<close>

definition fadeTick_rounded :: "(rat \<Rightarrow> rat) \<Rightarrow> player \<Rightarrow> player" where
  "fadeTick_rounded fl p =
     (case fadeOutIntervalRef p of
        None \<Rightarrow> p
      | Some volumeDecrement \<Rightarrow>
          (let p1 = p\<lparr>volume := max 0 (fl (volume p - volumeDecrement))\<rparr>
           in if volume p1 \<le> 0 then p1\<lparr>fadeOutIntervalRef := None\<rparr> else p1))"

definition round_grid :: "nat \<Rightarrow> rat \<Rightarrow> rat" where
  "round_grid b x = of_int (round (x * 2 ^ b)) / 2 ^ b"

section \<open>Caption generation\<close>

text \<open>
  \<^verbatim>\<open>generateCaptions\<close> writes captions into the media objects themselves:
  \<^verbatim>\<open>updatedMedia = [...media]\<close> is a new array holding the same object references, and
  \<^verbatim>\<open>(updatedMedia[index] as ImageFile).caption = ...\<close> mutates an object that the
  \<^verbatim>\<open>media\<close> state also holds. So the media objects live in a store, and an array is a
  list of references into it.
\<close>

type_synonym ref = nat

datatype caption_status = Idle | Generating | Done | Error

record caption_state =
  store :: "ref \<Rightarrow> media_file"
  cs_media :: "ref list"
  captionStatus :: caption_status
  smartCaptionsEnabled :: bool
  isApiKeyAvailable :: bool

text \<open>\<^verbatim>\<open>Array.prototype.findIndex\<close>: the first index whose element passes, or \<open>-1\<close>.\<close>

fun findIndex :: "('a \<Rightarrow> bool) \<Rightarrow> 'a list \<Rightarrow> int" where
  "findIndex P [] = - 1"
| "findIndex P (x # xs) =
     (if P x then 0 else (let i = findIndex P xs in if i = - 1 then - 1 else i + 1))"

text \<open>\<^verbatim>\<open>String.prototype.trim\<close>, on the ASCII white space characters.\<close>

definition is_space :: "char \<Rightarrow> bool" where
  "is_space c = (c \<in> set [CHR '' '', CHR 0x09, CHR 0x0A, CHR 0x0B, CHR 0x0C, CHR 0x0D])"

definition trim :: "string \<Rightarrow> string" where
  "trim t = rev (dropWhile is_space (rev (dropWhile is_space t)))"

text \<open>\<^verbatim>\<open>item.type === 'image' && !item.caption\<close>.\<close>

fun lacks_caption :: "media_file \<Rightarrow> bool" where
  "lacks_caption (ImageFile _ _ _ c) = (\<not> truthy c)"
| "lacks_caption (VideoFile _ _ _) = False"

fun with_caption :: "string \<Rightarrow> media_file \<Rightarrow> media_file" where
  "with_caption t (ImageFile i f u _) = ImageFile i f u (Some t)"
| "with_caption t (VideoFile i f u) = VideoFile i f u"

text \<open>
  The \<^verbatim>\<open>for\<close> loop of \<^verbatim>\<open>generateCaptions\<close> (lines 300--312). \<open>ai\<close> is the caption
  service seen from the loop: the text of the response for a file, or \<open>None\<close> when reading
  the file or the call throws. The result is the store, and whether the loop ran to its end.
\<close>

fun caption_loop ::
  "(File \<Rightarrow> string option) \<Rightarrow> ref list \<Rightarrow> ref list \<Rightarrow> (ref \<Rightarrow> media_file) \<Rightarrow> (ref \<Rightarrow> media_file) \<times> bool" where
  "caption_loop ai updatedMedia [] h = (h, True)"
| "caption_loop ai updatedMedia (imageFile # rest) h =
     (case ai (mf_file (h imageFile)) of
        None \<Rightarrow> (h, False)
      | Some text \<Rightarrow>
          (let index = findIndex (\<lambda>item. mf_id (h item) = mf_id (h imageFile)) updatedMedia in
           if index \<noteq> - 1 \<and> is_image (h (updatedMedia ! nat index)) then
             caption_loop ai updatedMedia rest
               (h(updatedMedia ! nat index := with_caption (trim text) (h (updatedMedia ! nat index))))
           else caption_loop ai updatedMedia rest h))"

definition imagesToCaption :: "caption_state \<Rightarrow> ref list" where
  "imagesToCaption s = filter (\<lambda>item. lacks_caption (store s item)) (cs_media s)"

text \<open>\<^verbatim>\<open>generateCaptions\<close> (lines 284--319); \<open>apiKey\<close> is \<^verbatim>\<open>process.env.API_KEY\<close>.\<close>

definition generateCaptions ::
  "string option \<Rightarrow> (File \<Rightarrow> string option) \<Rightarrow> caption_state \<Rightarrow> caption_state" where
  "generateCaptions apiKey ai s =
     (if \<not> smartCaptionsEnabled s \<or> captionStatus s = Generating \<or> \<not> isApiKeyAvailable s then s
      else if imagesToCaption s = [] then
        (if length (cs_media s) > 0 then s\<lparr>captionStatus := Done\<rparr> else s)
      else
        (let s1 = s\<lparr>captionStatus := Generating\<rparr> in
         if \<not> truthy apiKey then s1\<lparr>captionStatus := Error\<rparr>
         else
           (let updatedMedia = cs_media s1 in
            case caption_loop ai updatedMedia (imagesToCaption s) (store s1) of
              (h, True) \<Rightarrow> s1\<lparr>store := h, cs_media := updatedMedia, captionStatus := Done\<rparr>
            | (h, False) \<Rightarrow> s1\<lparr>store := h, captionStatus := Error\<rparr>)))"

text \<open>
  Three images, the first captioned in an earlier pass; the service answers for the second
  and throws for the third.
\<close>

definition photo :: "string \<Rightarrow> string option \<Rightarrow> media_file" where
  "photo n c = ImageFile (n @ ''-1'')
     \<lparr>file_name = n, file_type = ''image/png'', file_duration = 0\<rparr> (''blob:'' @ n) c"

definition three_photos :: caption_state where
  "three_photos =
     \<lparr>store = (\<lambda>a. if a = 0 then photo ''a.png'' (Some ''A beach.'')
                    else if a = 1 then photo ''b.png'' None
                    else photo ''c.png'' None),
      cs_media = [0, 1, 2],
      captionStatus = Idle, smartCaptionsEnabled = True, isApiKeyAvailable = True\<rparr>"

definition failing_service :: "File \<Rightarrow> string option" where
  "failing_service f = (if file_name f = ''b.png'' then Some '' A dog. '' else None)"

section \<open>Media upload\<close>

definition MAX_IMAGES :: nat where "MAX_IMAGES = 30"
definition MAX_VIDEOS :: nat where "MAX_VIDEOS = 1"
definition MAX_VIDEO_DURATION :: rat where "MAX_VIDEO_DURATION = 30"

text \<open>\<^verbatim>\<open>String.prototype.startsWith\<close>.\<close>

definition startsWith :: "string \<Rightarrow> string \<Rightarrow> bool" where
  "startsWith t pre = (take (length pre) t = pre)"

text \<open>
  A file of the batch, with what \<^verbatim>\<open>Date.now()\<close> and \<^verbatim>\<open>URL.createObjectURL\<close> return
  when it is pushed.
\<close>

record picked =
  pk_file :: File
  pk_now :: nat
  pk_url :: string

definition max_images_alert :: string where
  "max_images_alert =
     ''Maximum of '' @ string_of_nat MAX_IMAGES @ '' images reached. Some images were not uploaded.''"

definition max_videos_alert :: string where
  "max_videos_alert =
     ''Maximum of '' @ string_of_nat MAX_VIDEOS @ '' video reached. Some videos were not uploaded.''"

definition too_long_alert :: "File \<Rightarrow> string" where
  "too_long_alert f =
     ''Video '' @ [CHR 0x22] @ file_name f @ [CHR 0x22] @ '' exceeds the 30s limit and was not uploaded.''"

definition new_id :: "picked \<Rightarrow> string" where
  "new_id k = file_name (pk_file k) @ ''-'' @ string_of_nat (pk_now k)"

text \<open>
  The loop of \<^verbatim>\<open>processFiles\<close> (lines 645--690) over the rest of the batch, with
  \<^verbatim>\<open>updatedMedia\<close> and the alerts shown so far. The \<^verbatim>\<open>break\<close> of the image branch ends
  the loop; the video branches go on with the next file. Every entry of the batch is a
  \<^verbatim>\<open>File\<close>, so the \<^verbatim>\<open>instanceof\<close> test never skips one.
\<close>

fun processFiles :: "picked list \<Rightarrow> media_file list \<Rightarrow> string list \<Rightarrow> media_file list \<times> string list" where
  "processFiles [] updatedMedia alerts = (updatedMedia, alerts)"
| "processFiles (k # files) updatedMedia alerts =
     (let currentImagesCount = length (filter is_image updatedMedia);
          currentVideosCount = length (filter is_video updatedMedia)
      in if startsWith (file_type (pk_file k)) ''image/'' then
           (if currentImagesCount < MAX_IMAGES then
              processFiles files (updatedMedia @ [ImageFile (new_id k) (pk_file k) (pk_url k) None]) alerts
            else (updatedMedia, alerts @ [max_images_alert]))
         else if startsWith (file_type (pk_file k)) ''video/'' then
           (if currentVideosCount < MAX_VIDEOS then
              (if file_duration (pk_file k) > MAX_VIDEO_DURATION then
                 processFiles files updatedMedia (alerts @ [too_long_alert (pk_file k)])
               else
                 processFiles files (updatedMedia @ [VideoFile (new_id k) (pk_file k) (pk_url k)]) alerts)
            else processFiles files updatedMedia (alerts @ [max_videos_alert]))
         else processFiles files updatedMedia alerts)"

text \<open>
  \<^verbatim>\<open>handleMediaUpload\<close> (lines 638--695): the media list it sets and the alerts it shows.
  With no file it returns without setting anything.
\<close>

definition handleMediaUpload :: "picked list \<Rightarrow> media_file list \<Rightarrow> media_file list \<times> string list" where
  "handleMediaUpload files media_now =
     (if files = [] then (media_now, []) else processFiles files media_now [])"

text \<open>Thirty images already in the list; the batch is one more image followed by a ten second video.\<close>

definition thirty_images :: "media_file list" where
  "thirty_images = images 30"

definition picked_image :: picked where
  "picked_image =
     \<lparr>pk_file = \<lparr>file_name = ''z.png'', file_type = ''image/png'', file_duration = 0\<rparr>,
      pk_now = 7, pk_url = ''blob:z''\<rparr>"

definition picked_video :: picked where
  "picked_video =
     \<lparr>pk_file = \<lparr>file_name = ''clip.mp4'', file_type = ''video/mp4'', file_duration = 10\<rparr>,
      pk_now = 8, pk_url = ''blob:clip''\<rparr>"

section \<open>Properties\<close>

declare string_of_nat.simps [simp del]

subsection \<open>Auto-adjustment controller\<close>

lemma images_are_images [simp]: "filter is_image (images n) = images n"
  by (simp add: images_def image_no_def filter_map o_def)

lemma length_images [simp]: "length (images n) = n"
  by (simp add: images_def)


lemma adjust_cases:
  "adjust_after_probes r a vs = [] \<or>
   adjust_after_probes r a vs = [SetAdjustmentNotification None] \<or>
   (\<exists>n m. adjust_after_probes r a vs = [Set_isAutoAdjusting True, SetIntervalValue n, SetAdjustmentNotification (Some m)]
      \<and> 1 \<le> n \<and> n \<noteq> interval r \<and> m \<noteq> [])"
  by (auto simp add: adjust_after_probes_def Let_def adjusted_notice_def minimum_notice_def)

lemma invoke_cases:
  "invoke s = [Set_isAutoAdjusting False] \<and> isAutoAdjusting s \<or>
   \<not> isAutoAdjusting s \<and>
   (invoke s = [] \<or>
    invoke s = [SetAdjustmentNotification None] \<and> truthy (adjustmentNotification s) \<or>
    (\<exists>n m. invoke s = [Set_isAutoAdjusting True, SetIntervalValue n, SetAdjustmentNotification (Some m)]
      \<and> 1 \<le> n \<and> n \<noteq> interval s \<and> m \<noteq> []))"
proof (cases "isAutoAdjusting s")
  case True
  then show ?thesis by (simp add: invoke_def autoAdjustEffect_def)
next
  case False
  show ?thesis
  proof (cases "audioFile s")
    case None
    with False show ?thesis by (simp add: invoke_def autoAdjustEffect_def)
  next
    case (Some audio)
    show ?thesis
    proof (cases "imageCount s = 0")
      case True
      with False Some show ?thesis by (simp add: invoke_def autoAdjustEffect_def)
    next
      case nz: False
      let ?vs = "map (\<lambda>v. file_duration (mf_file v)) (filter is_video (media s))"
      have eq: "invoke s = adjust_after_probes s (file_duration audio) ?vs"
        using False Some nz by (simp add: invoke_def autoAdjustEffect_def calculateAndAdjust_def)
      have "adjust_after_probes s (file_duration audio) ?vs = [SetAdjustmentNotification None]
            \<Longrightarrow> truthy (adjustmentNotification s)"
        by (auto simp add: adjust_after_probes_def Let_def split: if_splits)
      with eq False adjust_cases[of s "file_duration audio" ?vs]
      show ?thesis by auto
    qed
  qed
qed

lemma imageCount_update [simp]:
  "imageCount (s\<lparr>interval := n\<rparr>) = imageCount s"
  "imageCount (s\<lparr>adjustmentNotification := m\<rparr>) = imageCount s"
  "imageCount (s\<lparr>isAutoAdjusting := b\<rparr>) = imageCount s"
  by (simp_all add: imageCount_def)

lemma perform_keeps_inputs:
  "media (perform a s) = media s \<and> audioFile (perform a s) = audioFile s \<and>
   imageCount (perform a s) = imageCount s"
  by (cases a) simp_all

lemma performs_keeps_inputs:
  "media (performs w s) = media s \<and> audioFile (performs w s) = audioFile s \<and>
   imageCount (performs w s) = imageCount s"
  unfolding performs_def
  by (induction w arbitrary: s) (simp_all add: perform_keeps_inputs)

lemma second_adjustment_writes_no_interval:
  assumes "imageCount r2 = imageCount r"
      and "interval r2 = interval (performs (adjust_after_probes r a vs) r)"
  shows "filter is_interval_write (adjust_after_probes r2 a vs) = []"
  using assms
  by (auto simp add: adjust_after_probes_def Let_def performs_def split: if_splits)

lemma no_interval_write_keeps_interval:
  "filter is_interval_write w = [] \<Longrightarrow> interval (performs w s) = interval s"
  unfolding performs_def
proof (induction w arbitrary: s)
  case Nil
  then show ?case by simp
next
  case (Cons a w)
  then show ?case by (cases a) (simp_all split: if_splits)
qed



lemma scenarioB_invoke:
  "invoke scenarioB =
     [Set_isAutoAdjusting True, SetIntervalValue 2,
      SetAdjustmentNotification (Some ''Slide speed automatically adjusted to 2s to match song length.'')]"
  by code_simp

lemma scenarioB_calculateAndAdjust:
  "calculateAndAdjust scenarioB song20 =
     [Set_isAutoAdjusting True, SetIntervalValue 2,
      SetAdjustmentNotification (Some ''Slide speed automatically adjusted to 2s to match song length.'')]"
  by code_simp





text \<open>
  Claim C4. Every interval that an invocation of the controller writes is an integer of at
  least 1, and when the interval was at least 1 before the invocation it is at least 1
  after it. The guard of the effect covers the inputs without images or without audio.
\<close>

theorem interval_floor:
  "(\<forall>n. SetIntervalValue n \<in> set (invoke s) \<longrightarrow> 1 \<le> n) \<and>
   (1 \<le> interval s \<longrightarrow> 1 \<le> interval (performs (invoke s) s))"
  using invoke_cases[of s]
  by (auto simp add: performs_def)

theorem interval_floor_witness:
  "SetIntervalValue 2 \<in> set (invoke scenarioB) \<and> (1::int) \<le> 2 \<and>
   1 \<le> interval scenarioB \<and> 1 \<le> interval (performs (invoke scenarioB) scenarioB)"
proof -
  have a: "SetIntervalValue 2 \<in> set (invoke scenarioB)" by (simp add: scenarioB_invoke)
  have b: "1 \<le> interval scenarioB" by (simp add: scenarioB_def)
  from interval_floor [of scenarioB] a b show ?thesis by blast
qed

text \<open>
  Claim C5. Applying the adjustment to the state that a first application produced (same
  images, video durations and audio duration, the interval being the first output) writes
  no interval: the output interval is the input interval. Stated for the computation itself
  with at least one image, and for whole invocations of the effect (the flag cleared in
  between), which also covers the inputs the guard stops.
\<close>

theorem adjustment_idempotent:
  "(0 < imageCount r \<longrightarrow>
      (let r' = performs (adjust_after_probes r audioDuration videoDurations) r
       in filter is_interval_write (adjust_after_probes r' audioDuration videoDurations) = [] \<and>
          interval (performs (adjust_after_probes r' audioDuration videoDurations) r') = interval r')) \<and>
   (\<not> isAutoAdjusting s \<longrightarrow>
      (let s' = (performs (invoke s) s)\<lparr>isAutoAdjusting := False\<rparr>
       in interval (performs (invoke s') s') = interval s'))"
proof (intro conjI impI)
  assume "0 < imageCount r"
  let ?r' = "performs (adjust_after_probes r audioDuration videoDurations) r"
  have "filter is_interval_write (adjust_after_probes ?r' audioDuration videoDurations) = []"
    by (rule second_adjustment_writes_no_interval[of _ r]) (simp_all add: performs_keeps_inputs)
  then show "let r' = ?r' in filter is_interval_write (adjust_after_probes r' audioDuration videoDurations) = [] \<and>
          interval (performs (adjust_after_probes r' audioDuration videoDurations) r') = interval r'"
    by (simp add: Let_def no_interval_write_keeps_interval)
next
  assume nf: "\<not> isAutoAdjusting s"
  let ?s' = "(performs (invoke s) s)\<lparr>isAutoAdjusting := False\<rparr>"
  have "filter is_interval_write (invoke ?s') = []"
  proof (cases "audioFile s")
    case None
    then show ?thesis
      by (simp add: invoke_def autoAdjustEffect_def performs_keeps_inputs)
  next
    case (Some audio)
    show ?thesis
    proof (cases "imageCount s = 0")
      case True
      with Some show ?thesis
        by (simp add: invoke_def autoAdjustEffect_def performs_keeps_inputs)
    next
      case False
      let ?vs = "map (\<lambda>v. file_duration (mf_file v)) (filter is_video (media s))"
      have first: "invoke s = adjust_after_probes s (file_duration audio) ?vs"
        using nf Some False by (simp add: invoke_def autoAdjustEffect_def calculateAndAdjust_def)
      have second: "invoke ?s' = adjust_after_probes ?s' (file_duration audio) ?vs"
        using Some False
        by (simp add: invoke_def autoAdjustEffect_def calculateAndAdjust_def performs_keeps_inputs)
      show ?thesis
        unfolding second
        by (rule second_adjustment_writes_no_interval[of _ s]) (simp_all add: performs_keeps_inputs first)
    qed
  qed
  then show "let s' = ?s' in interval (performs (invoke s') s') = interval s'"
    by (simp add: Let_def no_interval_write_keeps_interval)
qed


theorem adjustment_idempotent_witness:
  "0 < imageCount scenarioB \<and>
   interval (performs (adjust_after_probes scenarioB 20 []) scenarioB) = 2 \<and>
   interval (performs (adjust_after_probes (performs (adjust_after_probes scenarioB 20 []) scenarioB) 20 [])
      (performs (adjust_after_probes scenarioB 20 []) scenarioB)) = 2 \<and>
   \<not> isAutoAdjusting scenarioB \<and>
   interval (performs (invoke ((performs (invoke scenarioB) scenarioB)\<lparr>isAutoAdjusting := False\<rparr>))
      ((performs (invoke scenarioB) scenarioB)\<lparr>isAutoAdjusting := False\<rparr>)) = 2"
proof -
  have n: "0 < imageCount scenarioB" by (simp add: imageCount_def scenarioB_def)
  have f: "\<not> isAutoAdjusting scenarioB" by (simp add: scenarioB_def)
  have a: "adjust_after_probes scenarioB 20 [] =
     [Set_isAutoAdjusting True, SetIntervalValue 2,
      SetAdjustmentNotification (Some ''Slide speed automatically adjusted to 2s to match song length.'')]"
    by code_simp
  have i: "interval (performs (adjust_after_probes scenarioB 20 []) scenarioB) = 2"
    by (simp add: a performs_def)
  have j: "interval ((performs (invoke scenarioB) scenarioB)\<lparr>isAutoAdjusting := False\<rparr>) = 2"
    by (simp add: scenarioB_invoke performs_def)
  from adjustment_idempotent [of scenarioB 20 "[]" scenarioB] n f i j
  show ?thesis by (simp add: Let_def)
qed



lemma notice_written_is_not_empty:
  "SetAdjustmentNotification (Some m) \<in> set (invoke s) \<Longrightarrow> m \<noteq> []"
  using invoke_cases[of s] by auto

subsection \<open>Overlapping computations\<close>

lemma overlapB_reached: "occur (UserSetAudio song60) mountedB = Some overlapB"
  by code_simp

text \<open>
  Claim C2 fails on the code: the effect has no clean-up and \<^verbatim>\<open>calculateAndAdjust\<close> checks
  nothing before it writes. With ten images at interval 5 the user replaces the 20 second
  song by a 60 second one while the first probe is in flight. Whichever of the two
  computations resolves first, the session ends with interval 2 and the adjustment notice,
  both computed from the old song, while the current inputs call for interval 5 and no notice.
\<close>

theorem stale_result_overwrites_counterexample:
  "occur (UserSetAudio song60) mountedB = Some overlapB \<and>
   map_option shown (occur_all [Resolve 1, Resolve 0] overlapB) =
     Some (2, Some ''Slide speed automatically adjusted to 2s to match song length.'') \<and>
   map_option shown (occur_all [Resolve 0, Resolve 0] overlapB) =
     Some (2, Some ''Slide speed automatically adjusted to 2s to match song length.'') \<and>
   interval (performs (invoke latestB) latestB) = 5 \<and>
   adjustmentNotification (performs (invoke latestB) latestB) = None"
  by code_simp

text \<open>
  Claim C2 as amended. A computation that resolves is never discarded: its writes, computed
  from the values captured when it started, land on the live state. When they include an
  interval write, the interval, the notice and the flag afterwards are the ones computed from
  the captured values, whatever the live state was; the live state is left as it is when
  the captured values call for no write. When the captured values are the live state
  (nothing changed since the effect started the computation), the result is the one of an
  invocation on the current inputs.
\<close>

theorem late_result_is_applied:
  assumes "i < length (pending y)" and "pending y ! i = (r, audio)"
  shows "app (resolve i y) = performs (calculateAndAdjust r audio) (app y) \<and>
     (SetIntervalValue n \<in> set (calculateAndAdjust r audio) \<longrightarrow>
        interval (app (resolve i y)) = n \<and>
        adjustmentNotification (app (resolve i y)) \<in> {Some (adjusted_notice n), Some minimum_notice} \<and>
        isAutoAdjusting (app (resolve i y))) \<and>
     (calculateAndAdjust r audio = [] \<longrightarrow> app (resolve i y) = app y) \<and>
     (autoAdjustEffect (app y) = ([], Some (r, audio)) \<longrightarrow>
        app (resolve i y) = performs (invoke (app y)) (app y))"
proof -
  have a: "app (resolve i y) = performs (calculateAndAdjust r audio) (app y)"
    using assms by (simp add: resolve_def)
  have b: "SetIntervalValue n \<in> set (calculateAndAdjust r audio) \<Longrightarrow>
        interval (app (resolve i y)) = n \<and>
        adjustmentNotification (app (resolve i y)) \<in> {Some (adjusted_notice n), Some minimum_notice} \<and>
        isAutoAdjusting (app (resolve i y))"
    unfolding a
    by (auto simp add: calculateAndAdjust_def adjust_after_probes_def Let_def performs_def split: if_splits)
  have c: "calculateAndAdjust r audio = [] \<Longrightarrow> app (resolve i y) = app y"
    unfolding a by (simp add: performs_def)
  have d: "autoAdjustEffect (app y) = ([], Some (r, audio)) \<Longrightarrow>
        app (resolve i y) = performs (invoke (app y)) (app y)"
    unfolding a by (simp add: invoke_def)
  from a b c d show ?thesis by blast
qed

theorem late_result_is_applied_witness:
  "0 < length (pending overlapB) \<and> pending overlapB ! 0 = (scenarioB, song20) \<and>
   SetIntervalValue 2 \<in> set (calculateAndAdjust scenarioB song20) \<and>
   interval (app (resolve 0 overlapB)) = 2 \<and>
   1 < length (pending overlapB) \<and> pending overlapB ! 1 = (latestB, song60) \<and>
   calculateAndAdjust latestB song60 = [] \<and>
   autoAdjustEffect (app overlapB) = ([], Some (latestB, song60)) \<and>
   app (resolve 1 overlapB) = app overlapB \<and>
   app (resolve 1 overlapB) = performs (invoke (app overlapB)) (app overlapB)"
proof -
  have p0a: "0 < length (pending overlapB)" and p0b: "pending overlapB ! 0 = (scenarioB, song20)"
    and p1a: "1 < length (pending overlapB)" and p1b: "pending overlapB ! 1 = (latestB, song60)"
    by (simp_all add: overlapB_def)
  have w: "SetIntervalValue 2 \<in> set (calculateAndAdjust scenarioB song20)"
    by (simp add: scenarioB_calculateAndAdjust)
  have e: "calculateAndAdjust latestB song60 = []"
    by code_simp
  have f: "autoAdjustEffect (app overlapB) = ([], Some (latestB, song60))"
    by code_simp
  note r0 = late_result_is_applied [OF p0a p0b, where n = 2]
  note r1 = late_result_is_applied [OF p1a p1b, where n = 2]
  from r0 w have i0: "interval (app (resolve 0 overlapB)) = 2" by blast
  from r1 e have k1: "app (resolve 1 overlapB) = app overlapB" by blast
  from r1 f have k2: "app (resolve 1 overlapB) = performs (invoke (app overlapB)) (app overlapB)"
    by blast
  from p0a p0b p1a p1b w e f i0 k1 k2 show ?thesis by blast
qed

subsection \<open>Playback state machine\<close>

lemma single_item_step:
  assumes "length (pl_media p) = 1" and "currentIndex p = 0"
  shows "length (pl_media (player_step p e)) = 1 \<and> currentIndex (player_step p e) = 0"
proof (cases e)
  case TimerFired
  with assms show ?thesis by (simp add: slideTimer_def)
next
  case VideoHasEnded
  with assms show ?thesis by (simp add: advanced_def advanceSlide_def Let_def)
next
  case FadeTimerFired
  with assms show ?thesis by (simp add: fadeTick_def Let_def split: option.splits)
qed

lemma single_item_steps:
  "length (pl_media p) = 1 \<Longrightarrow> currentIndex p = 0 \<Longrightarrow>
   length (pl_media (foldl player_step p evs)) = 1 \<and> currentIndex (foldl player_step p evs) = 0"
proof (induction evs arbitrary: p)
  case Nil
  then show ?case by simp
next
  case (Cons e evs)
  from single_item_step[OF Cons.prems, of e] Cons.IH[of "player_step p e"]
  show ?case by simp
qed

text \<open>
  Claim C7 fails on the code for a single video: the slide timer effect returns early when
  there are fewer than two items, but the \<^verbatim>\<open>video\<close> element is rendered with
  \<^verbatim>\<open>onEnded={advanceSlide}\<close> whatever the length of the list.
\<close>

theorem single_video_armed_counterexample:
  "length (pl_media single_video_player) = 1 \<and> armed single_video_player = [VideoEnded]"
  by (simp add: single_video_player_def armed_def slideTimer_def videoOnEnded_def a_video_def)

text \<open>
  Claim C7 as amended. With exactly one item no slide timer is armed. A single image has no
  advancement mechanism at all; a single video still has its ended handler, and that is the
  only mechanism. Advancing leaves the player as it is (index 0 again), so the item stays
  the current one whatever timers or ended signals fire.
\<close>

theorem single_item_stays:
  assumes "length (pl_media p) = 1" and "currentIndex p = 0"
  shows "slideTimer p = None \<and>
         (is_image (pl_media p ! 0) \<longrightarrow> armed p = []) \<and>
         (is_video (pl_media p ! 0) \<longrightarrow> armed p = [VideoEnded]) \<and>
         advanceSlide p = p \<and>
         (\<forall>evs. currentIndex (foldl player_step p evs) = 0)"
proof -
  have t: "slideTimer p = None" using assms by (simp add: slideTimer_def)
  have i: "is_image (pl_media p ! 0) \<Longrightarrow> armed p = []"
    using assms by (cases "pl_media p ! 0") (simp_all add: armed_def t videoOnEnded_def)
  have v: "is_video (pl_media p ! 0) \<Longrightarrow> armed p = [VideoEnded]"
    using assms by (simp add: armed_def t videoOnEnded_def)
  have a: "advanceSlide p = p" using assms by (simp add: advanceSlide_def)
  from t i v a single_item_steps[OF assms] show ?thesis by blast
qed

theorem single_item_stays_witness:
  "length (pl_media single_video_player) = 1 \<and> currentIndex single_video_player = 0 \<and>
   is_video (pl_media single_video_player ! 0) \<and>
   slideTimer single_video_player = None \<and> armed single_video_player = [VideoEnded] \<and>
   advanceSlide single_video_player = single_video_player \<and>
   currentIndex (foldl player_step single_video_player [VideoHasEnded, VideoHasEnded]) = 0 \<and>
   length (pl_media (single_video_player\<lparr>pl_media := [an_image]\<rparr>)) = 1 \<and>
   is_image (pl_media (single_video_player\<lparr>pl_media := [an_image]\<rparr>) ! 0) \<and>
   armed (single_video_player\<lparr>pl_media := [an_image]\<rparr>) = []"
proof -
  let ?q = "single_video_player\<lparr>pl_media := [an_image]\<rparr>"
  have h1: "length (pl_media single_video_player) = 1"
    and h2: "currentIndex single_video_player = 0"
    and h3: "is_video (pl_media single_video_player ! 0)"
    by (simp_all add: single_video_player_def a_video_def)
  have g1: "length (pl_media ?q) = 1" and g2: "currentIndex ?q = 0"
    and g3: "is_image (pl_media ?q ! 0)"
    by (simp_all add: single_video_player_def an_image_def)
  note v = single_item_stays [OF h1 h2]
  note i = single_item_stays [OF g1 g2]
  from v h3 have v1: "armed single_video_player = [VideoEnded]" by blast
  from v have v2: "currentIndex (foldl player_step single_video_player [VideoHasEnded, VideoHasEnded]) = 0"
    by blast
  from i g3 have i1: "armed ?q = []" by blast
  from v v1 v2 i1 h1 h2 h3 g1 g3 show ?thesis by blast
qed





lemma fadeTick_volume_le:
  assumes "0 \<le> volume p" and "\<forall>d. fadeOutIntervalRef p = Some d \<longrightarrow> 0 \<le> d"
  shows "volume (fadeTick p) \<le> volume p"
  using assms by (cases "fadeOutIntervalRef p") (auto simp add: fadeTick_def Let_def)






text \<open>
  The volume with which the last slide is entered: in every state the player reaches from
  mounting a list of more than one item, the volume is 1 and no fade timer runs unless the
  last slide is the current one. So each fade starts from volume 1.
\<close>

lemma audioEffect_fields [simp]:
  "pl_media (audioEffect p) = pl_media p"
  "pl_interval (audioEffect p) = pl_interval p"
  "currentIndex (audioEffect p) = currentIndex p"
  by (simp_all add: audioEffect_def Let_def)

lemma fadeTick_fields [simp]:
  "pl_media (fadeTick p) = pl_media p"
  "pl_interval (fadeTick p) = pl_interval p"
  "currentIndex (fadeTick p) = currentIndex p"
  by (simp_all add: fadeTick_def Let_def split: option.splits)

lemma audioEffect_not_last:
  assumes "currentIndex p \<noteq> length (pl_media p) - 1" and "1 < length (pl_media p)"
  shows "fadeOutIntervalRef (audioEffect p) = None \<and>
         volume (audioEffect p) = (if currentIndex p = 0 then 1 else volume p)"
  using assms by (auto simp add: audioEffect_def Let_def)

lemma advanced_keeps:
  assumes "1 < length (pl_media p)" and "between_fades p"
  shows "between_fades (advanced p) \<and> pl_media (advanced p) = pl_media p \<and>
         pl_interval (advanced p) = pl_interval p"
proof -
  let ?n = "length (pl_media p)"
  let ?j = "(currentIndex p + 1) mod ?n"
  let ?p' = "advanceSlide p"
  have i: "currentIndex p < ?n" using assms(2) by (simp add: between_fades_def)
  have npos: "0 < ?n" using assms(1) by auto
  have j: "?j < ?n" using npos by (rule mod_less_divisor)
  have ne: "?j \<noteq> currentIndex p"
  proof
    assume e: "?j = currentIndex p"
    show False
    proof (cases "currentIndex p + 1 < ?n")
      case True
      with e show False by simp
    next
      case False
      with i have "currentIndex p + 1 = ?n" by simp
      with e assms(1) show False by simp
    qed
  qed
  have adv: "advanced p = audioEffect ?p'"
    using ne by (simp add: advanced_def advanceSlide_def Let_def)
  have f: "pl_media ?p' = pl_media p" "pl_interval ?p' = pl_interval p" "currentIndex ?p' = ?j"
    "volume ?p' = volume p"
    by (simp_all add: advanceSlide_def)
  have "between_fades (audioEffect ?p')"
  proof (cases "?j = ?n - 1")
    case True
    with j show ?thesis by (simp add: between_fades_def f)
  next
    case False
    then have nl: "currentIndex ?p' \<noteq> length (pl_media ?p') - 1" by (simp add: f)
    have n1: "1 < length (pl_media ?p')" using assms(1) by (simp add: f)
    from audioEffect_not_last[OF nl n1]
    have r: "fadeOutIntervalRef (audioEffect ?p') = None"
      and v: "volume (audioEffect ?p') = (if ?j = 0 then 1 else volume p)" by (simp_all add: f)
    have "volume (audioEffect ?p') = 1"
    proof (cases "?j = 0")
      case True
      with v show ?thesis by simp
    next
      case j0: False
      have "currentIndex p \<noteq> ?n - 1"
      proof
        assume "currentIndex p = ?n - 1"
        with npos have "currentIndex p + 1 = ?n" by simp
        then have "?j = 0" by (simp only: mod_self)
        with j0 show False by simp
      qed
      with assms(2) have "volume p = 1" by (simp add: between_fades_def)
      with v j0 show ?thesis by simp
    qed
    with r j False show ?thesis by (simp add: between_fades_def f)
  qed
  with adv f show ?thesis by simp
qed

lemma player_step_keeps:
  assumes "1 < length (pl_media p)" and "between_fades p"
  shows "between_fades (player_step p e) \<and> pl_media (player_step p e) = pl_media p \<and>
         pl_interval (player_step p e) = pl_interval p"
proof (cases e)
  case TimerFired
  with assms advanced_keeps[OF assms] show ?thesis by simp
next
  case VideoHasEnded
  with assms advanced_keeps[OF assms] show ?thesis by simp
next
  case FadeTimerFired
  have "between_fades (fadeTick p)"
  proof (cases "currentIndex p = length (pl_media p) - 1")
    case True
    with assms(2) show ?thesis by (simp add: between_fades_def)
  next
    case False
    with assms(2) have "fadeOutIntervalRef p = None" by (simp add: between_fades_def)
    then have "fadeTick p = p" by (simp add: fadeTick_def)
    with assms(2) show ?thesis by simp
  qed
  with FadeTimerFired show ?thesis by simp
qed

lemma full_volume_between_fades:
  assumes "1 < length m"
  shows "between_fades (foldl player_step (mount m i) evs) \<and>
         pl_media (foldl player_step (mount m i) evs) = m \<and>
         pl_interval (foldl player_step (mount m i) evs) = i"
proof -
  have start: "between_fades (mount m i) \<and> pl_media (mount m i) = m \<and> pl_interval (mount m i) = i"
    using assms by (auto simp add: mount_def between_fades_def audioEffect_def Let_def)
  have "between_fades p \<and> pl_media p = m \<and> pl_interval p = i \<Longrightarrow>
        between_fades (foldl player_step p evs) \<and> pl_media (foldl player_step p evs) = m \<and>
        pl_interval (foldl player_step p evs) = i" for p
  proof (induction evs arbitrary: p)
    case Nil
    then show ?case by simp
  next
    case (Cons e evs)
    from Cons.prems assms have "1 < length (pl_media p)" and "between_fades p" by simp_all
    from player_step_keeps[OF this, of e] Cons.prems
    have "between_fades (player_step p e) \<and> pl_media (player_step p e) = m \<and>
          pl_interval (player_step p e) = i" by simp
    from Cons.IH[OF this] show ?case by simp
  qed
  from this[OF start] show ?thesis .
qed

text \<open>
  Rounding. When each subtraction is rounded with an error of at most \<open>u\<close> by a monotone,
  idempotent rounding, and the decrement is within \<open>u\<close> of the exact one \<open>d0\<close>, with
  \<open>2 * (N + 1) * u < d0\<close> for \<open>N\<close> the number of ticks: the volume is still positive
  before tick \<open>N\<close>, is 0 at tick \<open>N + 1\<close> at the latest, and never increases. Scenario D
  with rounding to multiples of \<open>1 / 2 ^ 53\<close> is an instance.
\<close>

lemma rounded_running:
  assumes "fadeOutIntervalRef p = Some d"
  shows "volume (fadeTick_rounded fl p) = max 0 (fl (volume p - d)) \<and>
         fadeOutIntervalRef (fadeTick_rounded fl p) = (if fl (volume p - d) \<le> 0 then None else Some d)"
  using assms by (simp add: fadeTick_rounded_def Let_def max_def)

lemma rounded_stopped:
  "fadeOutIntervalRef p = None \<Longrightarrow> fadeTick_rounded fl p = p"
  by (simp add: fadeTick_rounded_def)

lemma rounded_stopped_pow:
  "fadeOutIntervalRef p = None \<Longrightarrow> (fadeTick_rounded fl ^^ k) p = p"
  by (induction k) (simp_all add: rounded_stopped)

lemma rounded_fade:
  fixes u d0 :: rat and N :: nat
  assumes err: "\<And>x. \<bar>x\<bar> \<le> 2 \<Longrightarrow> \<bar>fl x - x\<bar> \<le> u"
      and mono: "\<And>x y. x \<le> y \<Longrightarrow> fl x \<le> fl y"
      and idem: "\<And>x. fl (fl x) = fl x"
      and v0: "fl (volume q) = volume q" "volume q \<le> 1" "volume q = of_nat N * d0"
      and run: "fadeOutIntervalRef q = Some d" and derr: "\<bar>d - d0\<bar> \<le> u"
      and N: "0 < N"
      and small: "2 * (of_nat N + 1) * u < d0"
  shows "(\<forall>k<N. 0 < volume ((fadeTick_rounded fl ^^ k) q)) \<and>
         volume ((fadeTick_rounded fl ^^ Suc N) q) = 0 \<and>
         (\<forall>k. volume ((fadeTick_rounded fl ^^ Suc k) q) \<le> volume ((fadeTick_rounded fl ^^ k) q))"
proof -
  let ?T = "fadeTick_rounded fl"
  let ?n = "of_nat N :: rat"
  define v where "v k = volume ((?T ^^ k) q)" for k
  define r where "r k = fadeOutIntervalRef ((?T ^^ k) q)" for k
  have u0: "0 \<le> u" using err[of 0] by simp
  have n1: "1 \<le> ?n" using N by simp
  have nu0: "0 \<le> ?n * u" using u0 by simp
  have d0nu: "2 * (?n * u) + 2 * u < d0" using small by (simp add: algebra_simps)
  have d0pos: "0 < d0" using d0nu nu0 u0 by linarith
  have d0le: "d0 \<le> 1"
  proof -
    have "1 * d0 \<le> ?n * d0" using n1 d0pos by (intro mult_right_mono) simp_all
    with v0(2,3) show ?thesis by simp
  qed
  have dpos: "0 < d" and dle: "d \<le> 2" using derr d0nu nu0 u0 d0le by linarith+
  have ku: "2 * (of_nat k * u) \<le> 2 * (?n * u)" if "k \<le> N" for k
  proof -
    have "(of_nat k :: rat) \<le> ?n" using that by simp
    then have "of_nat k * u \<le> ?n * u" using u0 by (rule mult_right_mono)
    then show ?thesis by simp
  qed
  have tick: "v (Suc k) = max 0 (fl (v k - d)) \<and> r (Suc k) = (if fl (v k - d) \<le> 0 then None else Some d)"
    if "r k = Some d" for k
    using rounded_running[of "(?T ^^ k) q" d fl] that by (simp add: v_def r_def)
  have stay: "v (Suc k) = v k \<and> r (Suc k) = None" if "r k = None" for k
    using rounded_stopped[of "(?T ^^ k) q" fl] that by (simp add: v_def r_def)
  have below: "fl (x - d) \<le> x" if "fl x = x" for x
  proof -
    have "fl (x - d) \<le> fl x" using dpos by (intro mono) simp
    with that show ?thesis by simp
  qed
  have inv: "k < N \<Longrightarrow> r k = Some d \<and> fl (v k) = v k \<and>
       \<bar>v k - of_nat (N - k) * d0\<bar> \<le> 2 * (of_nat k * u) \<and> 0 < v k \<and> v k \<le> 1" for k
  proof (induction k)
    case 0
    have "0 < ?n * d0" using N d0pos by simp
    then show ?case using v0 run by (simp add: v_def r_def)
  next
    case (Suc k)
    then have k: "k < N" by simp
    from Suc.IH[OF k] have rk: "r k = Some d" and fk: "fl (v k) = v k"
      and ek: "\<bar>v k - of_nat (N - k) * d0\<bar> \<le> 2 * (of_nat k * u)"
      and pk: "0 < v k" and lk: "v k \<le> 1" by simp_all
    define y where "y = fl (v k - d)"
    have ax: "\<bar>v k - d\<bar> \<le> 2" using pk lk dpos dle by (simp add: abs_le_iff)
    have yx: "\<bar>y - (v k - d)\<bar> \<le> u" unfolding y_def using err[OF ax] .
    have e': "of_nat (N - Suc k) * d0 = of_nat (N - k) * d0 - d0"
      using Suc.prems by (simp add: of_nat_diff algebra_simps)
    have ge: "d0 \<le> of_nat (N - Suc k) * d0"
    proof -
      have "(1::rat) \<le> of_nat (N - Suc k)" using Suc.prems by simp
      then have "1 * d0 \<le> of_nat (N - Suc k) * d0" using d0pos by (intro mult_right_mono) simp_all
      then show ?thesis by simp
    qed
    have b': "2 * (of_nat (Suc k) * u) = 2 * (of_nat k * u) + 2 * u" by (simp add: algebra_simps)
    have ey: "\<bar>y - of_nat (N - Suc k) * d0\<bar> \<le> 2 * (of_nat (Suc k) * u)"
      unfolding e' b' using yx ek derr by linarith
    have ypos: "0 < y" using ey ge ku[of "Suc k"] Suc.prems d0nu u0 by linarith
    have yle: "y \<le> 1" using below[OF fk] lk by (simp add: y_def)
    have fy: "fl y = y" by (simp add: y_def idem)
    from tick[OF rk] ypos have "v (Suc k) = y" and "r (Suc k) = Some d"
      by (simp_all add: y_def max_def)
    with fy ey ypos yle show ?case by simp
  qed
  have before: "\<forall>k<N. 0 < v k" using inv by blast
  obtain m where m: "N = Suc m" using N by (cases N) simp_all
  from inv[of m] m have rm: "r m = Some d" and fm: "fl (v m) = v m"
      and em: "\<bar>v m - of_nat (N - m) * d0\<bar> \<le> 2 * (of_nat m * u)"
      and pm: "0 < v m" and lm: "v m \<le> 1" by simp_all
  define y where "y = fl (v m - d)"
  have ax: "\<bar>v m - d\<bar> \<le> 2" using pm lm dpos dle by (simp add: abs_le_iff)
  have yx: "\<bar>y - (v m - d)\<bar> \<le> u" unfolding y_def using err[OF ax] .
  have one: "of_nat (N - m) * d0 = d0" using m by simp
  have bm: "2 * (of_nat N * u) = 2 * (of_nat m * u) + 2 * u" using m by (simp add: algebra_simps)
  have yN: "\<bar>y\<bar> \<le> 2 * (?n * u)" using yx em derr unfolding one bm by linarith
  have vN: "v N = max 0 y" and rN: "r N = (if y \<le> 0 then None else Some d)"
    using tick[OF rm] m by (simp_all add: y_def)
  have atN1: "v (Suc N) = 0 \<and> r (Suc N) = None"
  proof (cases "y \<le> 0")
    case True
    with vN rN stay[of N] show ?thesis by (simp add: max_def)
  next
    case False
    with vN rN have vy: "v N = y" and ry: "r N = Some d" by (simp_all add: max_def)
    have "\<bar>y - d\<bar> \<le> 2" using False yN d0nu d0le dpos dle u0 nu0 by (simp add: abs_le_iff)
    from err[OF this] have "fl (y - d) \<le> y - d + u" by (simp add: abs_le_iff)
    then have "fl (y - d) < 0" using yN derr d0nu by linarith
    with tick[OF ry] vy show ?thesis by (simp add: max_def)
  qed
  have after: "v k = 0 \<and> r k = None" if "Suc N \<le> k" for k
    using that
  proof (induction k)
    case 0
    then show ?case by simp
  next
    case (Suc k)
    show ?case
    proof (cases "Suc N \<le> k")
      case True
      from Suc.IH[OF True] stay[of k] show ?thesis by simp
    next
      case False
      with Suc.prems have "k = N" by simp
      with atN1 show ?thesis by simp
    qed
  qed
  have mono_v: "v (Suc k) \<le> v k" for k
  proof -
    consider "k < N" | "k = N" | "Suc N \<le> k" by linarith
    then show ?thesis
    proof cases
      case 1
      from inv[OF 1] have rk: "r k = Some d" and fk: "fl (v k) = v k" and pk: "0 < v k" by simp_all
      from tick[OF rk] below[OF fk] pk show ?thesis by (simp add: max_def)
    next
      case 2
      show ?thesis
      proof (cases "y \<le> 0")
        case True
        with vN rN stay[of N] 2 show ?thesis by simp
      next
        case False
        with vN have "0 \<le> v N" by simp
        with atN1 2 show ?thesis by simp
      qed
    next
      case 3
      from after[OF 3] after[of "Suc k"] 3 show ?thesis by simp
    qed
  qed
  from before atN1 mono_v show ?thesis by (simp add: v_def)
qed


lemma round_grid_err: "\<bar>round_grid b x - x\<bar> \<le> 1 / (2 * 2 ^ b)"
proof -
  define c :: rat where "c = 2 ^ b"
  have c: "0 < c" by (simp add: c_def)
  have "\<bar>of_int (round (x * c)) - x * c\<bar> \<le> 1 / 2"
    by (rule of_int_round_abs_le)
  then have "\<bar>of_int (round (x * c)) - x * c\<bar> / c \<le> (1 / 2) / c"
    using c by (intro divide_right_mono) simp_all
  moreover have "\<bar>of_int (round (x * c)) / c - x\<bar> = \<bar>of_int (round (x * c)) - x * c\<bar> / c"
  proof -
    have "of_int (round (x * c)) / c - x = (of_int (round (x * c)) - x * c) / c"
      using c by (simp add: field_simps)
    then have "\<bar>of_int (round (x * c)) / c - x\<bar> = \<bar>(of_int (round (x * c)) - x * c) / c\<bar>"
      by (simp only:)
    also have "\<dots> = \<bar>of_int (round (x * c)) - x * c\<bar> / \<bar>c\<bar>"
      by (rule abs_divide)
    also have "\<dots> = \<bar>of_int (round (x * c)) - x * c\<bar> / c"
      using c by simp
    finally show ?thesis .
  qed
  ultimately show ?thesis by (simp add: round_grid_def c_def)
qed

lemma round_grid_mono: "x \<le> y \<Longrightarrow> round_grid b x \<le> round_grid b y"
  unfolding round_grid_def
  by (intro divide_right_mono) (simp_all add: round_mono)

lemma round_grid_idem: "round_grid b (round_grid b x) = round_grid b x"
proof -
  define m where "m = round (x * 2 ^ b)"
  have "(of_int m / 2 ^ b * 2 ^ b :: rat) = of_int m" by simp
  then have "round (of_int m / 2 ^ b * 2 ^ b :: rat) = m" by (simp only: round_of_int)
  then show ?thesis by (simp only: round_grid_def m_def)
qed

lemma round_grid_one: "round_grid b 1 = 1"
proof -
  have "(1 * 2 ^ b :: rat) = of_int (2 ^ b)" by simp
  then have "round (1 * 2 ^ b :: rat) = 2 ^ b" by (simp only: round_of_int)
  then have "round_grid b 1 = of_int (2 ^ b) / 2 ^ b" by (simp only: round_grid_def)
  then show ?thesis by simp
qed

lemma scenarioD_rounded:
  "(\<forall>k<80. 0 < volume ((fadeTick_rounded (round_grid 53) ^^ k) (audioEffect scenarioD))) \<and>
   volume ((fadeTick_rounded (round_grid 53) ^^ 81) (audioEffect scenarioD)) = 0 \<and>
   (\<forall>k. volume ((fadeTick_rounded (round_grid 53) ^^ Suc k) (audioEffect scenarioD))
        \<le> volume ((fadeTick_rounded (round_grid 53) ^^ k) (audioEffect scenarioD)))"
proof -
  have q: "volume (audioEffect scenarioD) = 1"
    "fadeOutIntervalRef (audioEffect scenarioD) = Some (1 / 80)"
    by (simp_all add: audioEffect_def scenarioD_def Let_def)
  have "(\<forall>k<80. 0 < volume ((fadeTick_rounded (round_grid 53) ^^ k) (audioEffect scenarioD))) \<and>
     volume ((fadeTick_rounded (round_grid 53) ^^ Suc 80) (audioEffect scenarioD)) = 0 \<and>
     (\<forall>k. volume ((fadeTick_rounded (round_grid 53) ^^ Suc k) (audioEffect scenarioD))
        \<le> volume ((fadeTick_rounded (round_grid 53) ^^ k) (audioEffect scenarioD)))"
  proof (rule rounded_fade[where u = "1 / (2 * 2 ^ 53)" and ?d0.0 = "1 / 80" and d = "1 / 80"])
    show "\<bar>round_grid 53 x - x\<bar> \<le> 1 / (2 * 2 ^ 53)" for x by (rule round_grid_err)
    show "round_grid 53 x \<le> round_grid 53 y" if "x \<le> y" for x y using that by (rule round_grid_mono)
    show "round_grid 53 (round_grid 53 x) = round_grid 53 x" for x by (rule round_grid_idem)
    show "round_grid 53 (volume (audioEffect scenarioD)) = volume (audioEffect scenarioD)"
      by (simp only: q round_grid_one)
    show "volume (audioEffect scenarioD) \<le> 1" by (simp add: q)
    show "volume (audioEffect scenarioD) = of_nat 80 * (1 / 80)" by (simp add: q)
    show "fadeOutIntervalRef (audioEffect scenarioD) = Some (1 / 80)" by (simp add: q)
    show "\<bar>1 / 80 - 1 / 80 :: rat\<bar> \<le> 1 / (2 * 2 ^ 53)" by simp
    show "0 < (80::nat)" by simp
    show "2 * (of_nat 80 + 1) * (1 / (2 * 2 ^ 53)) < (1 / 80 :: rat)" by simp
  qed
  then show ?thesis by simp
qed

lemma fadeTick_rounded_exact: "fadeTick_rounded (\<lambda>x. x) = fadeTick"
  by (simp add: fun_eq_iff fadeTick_rounded_def fadeTick_def)

subsection \<open>Caption generation\<close>

lemma findIndex_distinct:
  assumes "a \<in> set um" and "distinct (map f um)"
  shows "\<exists>i. findIndex (\<lambda>b. f b = f a) um = int i \<and> i < length um \<and> um ! i = a"
  using assms
proof (induction um)
  case Nil
  then show ?case by simp
next
  case (Cons u us)
  show ?case
  proof (cases "f u = f a")
    case True
    with Cons.prems have "a = u" by (auto simp add: image_iff)
    with True show ?thesis by simp
  next
    case False
    with Cons.prems have "a \<in> set us" and "distinct (map f us)" by auto
    from Cons.IH[OF this] obtain i where
      i: "findIndex (\<lambda>b. f b = f a) us = int i" "i < length us" "us ! i = a" by blast
    with False have "findIndex (\<lambda>b. f b = f a) (u # us) = int (Suc i) \<and> Suc i < length (u # us) \<and> (u # us) ! Suc i = a"
      by (simp add: Let_def)
    then show ?thesis by blast
  qed
qed

lemma with_caption_fields [simp]:
  "mf_id (with_caption t m) = mf_id m"
  "mf_file (with_caption t m) = mf_file m"
  "previewUrl (with_caption t m) = previewUrl m"
  "is_image (with_caption t m) = is_image m"
  by (cases m; simp)+

lemma caption_loop_failure:
  assumes "distinct (map (\<lambda>a. mf_id (h a)) um)"
      and "set pre \<subseteq> set um" and "distinct pre"
      and "\<forall>a \<in> set pre. is_image (h a) \<and> ai (mf_file (h a)) \<noteq> None"
      and "x \<notin> set pre" and "ai (mf_file (h x)) = None"
  shows "\<exists>h'. caption_loop ai um (pre @ x # post) h = (h', False) \<and>
           (\<forall>a. a \<notin> set pre \<longrightarrow> h' a = h a) \<and>
           (\<forall>a \<in> set pre. \<exists>t. ai (mf_file (h a)) = Some t \<and> h' a = with_caption (trim t) (h a))"
  using assms
proof (induction pre arbitrary: h)
  case Nil
  then show ?case by simp
next
  case (Cons a pre)
  from Cons.prems obtain t where t: "ai (mf_file (h a)) = Some t" by auto
  from Cons.prems have img: "is_image (h a)" and mem: "a \<in> set um" by auto
  from findIndex_distinct[OF mem Cons.prems(1)] obtain i where
    i: "findIndex (\<lambda>b. mf_id (h b) = mf_id (h a)) um = int i" "i < length um" "um ! i = a"
    by blast
  define h1 where "h1 = h(a := with_caption (trim t) (h a))"
  have step: "caption_loop ai um ((a # pre) @ x # post) h = caption_loop ai um (pre @ x # post) h1"
    using t i img by (simp add: Let_def h1_def)
  have ids: "(\<lambda>b. mf_id (h1 b)) = (\<lambda>b. mf_id (h b))"
    by (auto simp add: h1_def fun_eq_iff)
  have other: "\<And>b. b \<noteq> a \<Longrightarrow> h1 b = h b" by (simp add: h1_def)
  have p1: "distinct (map (\<lambda>a. mf_id (h1 a)) um)" using Cons.prems(1) by (simp only: ids)
  have p2: "set pre \<subseteq> set um" and p3: "distinct pre" and na: "a \<notin> set pre" and xa: "x \<noteq> a"
    using Cons.prems by auto
  have p4: "\<forall>b \<in> set pre. is_image (h1 b) \<and> ai (mf_file (h1 b)) \<noteq> None"
    using Cons.prems(4) na by (auto simp add: h1_def)
  have p5: "x \<notin> set pre" using Cons.prems by simp
  have p6: "ai (mf_file (h1 x)) = None" using Cons.prems(6) xa by (simp add: h1_def)
  from Cons.IH[OF p1 p2 p3 p4 p5 p6] obtain h' where
    r: "caption_loop ai um (pre @ x # post) h1 = (h', False)"
    and keep: "\<forall>b. b \<notin> set pre \<longrightarrow> h' b = h1 b"
    and got: "\<forall>b \<in> set pre. \<exists>t. ai (mf_file (h1 b)) = Some t \<and> h' b = with_caption (trim t) (h1 b)"
    by blast
  have k2: "\<forall>b. b \<notin> set (a # pre) \<longrightarrow> h' b = h b"
    using keep other by simp
  have g2: "\<forall>b \<in> set (a # pre). \<exists>t. ai (mf_file (h b)) = Some t \<and> h' b = with_caption (trim t) (h b)"
  proof
    fix b assume "b \<in> set (a # pre)"
    then consider "b = a" | "b \<in> set pre" "b \<noteq> a" using na by auto
    then show "\<exists>t. ai (mf_file (h b)) = Some t \<and> h' b = with_caption (trim t) (h b)"
    proof cases
      case 1
      with keep na have "h' b = h1 a" by simp
      with 1 t show ?thesis by (simp add: h1_def)
    next
      case 2
      from 2 other have "h1 b = h b" by simp
      with got 2 show ?thesis by auto
    qed
  qed
  from step r k2 g2 show ?case by (simp only:) blast
qed


lemma lacks_caption_image: "lacks_caption m \<Longrightarrow> is_image m"
  by (cases m) simp_all

text \<open>
  Claim C9. A pass that gets as far as the caption calls (captions enabled, not already
  generating, key present) over media items with distinct ids, in which the calls for the
  images \<open>pre\<close> answer and the call for the next image \<open>x\<close> throws: the status becomes
  \<^verbatim>\<open>error\<close>; the media list is the same list of the same objects; every object outside
  \<open>pre\<close> is unchanged, in particular every item that already had a caption; and every image
  in \<open>pre\<close> carries its trimmed new caption and is otherwise unchanged.
\<close>

theorem captions_survive_failure:
  assumes "smartCaptionsEnabled s" and "captionStatus s \<noteq> Generating" and "isApiKeyAvailable s"
      and "truthy apiKey"
      and "distinct (map (\<lambda>a. mf_id (store s a)) (cs_media s))"
      and "imagesToCaption s = pre @ x # post"
      and "\<forall>a \<in> set pre. ai (mf_file (store s a)) \<noteq> None"
      and "ai (mf_file (store s x)) = None"
  shows "captionStatus (generateCaptions apiKey ai s) = Error \<and>
         cs_media (generateCaptions apiKey ai s) = cs_media s \<and>
         (\<forall>a. a \<notin> set pre \<longrightarrow> store (generateCaptions apiKey ai s) a = store s a) \<and>
         (\<forall>a \<in> set pre. \<exists>t. ai (mf_file (store s a)) = Some t \<and>
              store (generateCaptions apiKey ai s) a = with_caption (trim t) (store s a) \<and>
              caption (store (generateCaptions apiKey ai s) a) = Some (trim t)) \<and>
         (\<forall>a \<in> set (cs_media s). \<not> lacks_caption (store s a) \<longrightarrow>
              store (generateCaptions apiKey ai s) a = store s a)"
proof -
  have dm: "distinct (cs_media s)" using assms(5) by (simp add: distinct_map)
  then have "distinct (imagesToCaption s)" by (simp add: imagesToCaption_def)
  with assms(6) have d: "distinct pre" and xn: "x \<notin> set pre" by simp_all
  have sub: "set (imagesToCaption s) \<subseteq> {a \<in> set (cs_media s). lacks_caption (store s a)}"
    by (auto simp add: imagesToCaption_def)
  with assms(6) have pre_sub: "set pre \<subseteq> set (cs_media s)"
    and pre_lack: "\<forall>a \<in> set pre. lacks_caption (store s a)" by auto
  have pre_ok: "\<forall>a \<in> set pre. is_image (store s a) \<and> ai (mf_file (store s a)) \<noteq> None"
    using pre_lack assms(7) by (auto intro: lacks_caption_image)
  from caption_loop_failure[OF assms(5) pre_sub d pre_ok xn assms(8), of post]
  obtain h' where loop: "caption_loop ai (cs_media s) (pre @ x # post) (store s) = (h', False)"
    and keep: "\<forall>a. a \<notin> set pre \<longrightarrow> h' a = store s a"
    and got: "\<forall>a \<in> set pre. \<exists>t. ai (mf_file (store s a)) = Some t \<and> h' a = with_caption (trim t) (store s a)"
    by blast
  have ne: "imagesToCaption s \<noteq> []" using assms(6) by simp
  have gen: "generateCaptions apiKey ai s = s\<lparr>captionStatus := Generating\<rparr>\<lparr>store := h', captionStatus := Error\<rparr>"
    using assms(1-4) ne loop by (simp add: generateCaptions_def Let_def assms(6))
  have c1: "captionStatus (generateCaptions apiKey ai s) = Error"
    and c2: "cs_media (generateCaptions apiKey ai s) = cs_media s"
    and st: "store (generateCaptions apiKey ai s) = h'"
    by (simp_all add: gen)
  have c4: "\<forall>a \<in> set pre. \<exists>t. ai (mf_file (store s a)) = Some t \<and>
              h' a = with_caption (trim t) (store s a) \<and> caption (h' a) = Some (trim t)"
  proof
    fix a assume a: "a \<in> set pre"
    with got obtain t where t: "ai (mf_file (store s a)) = Some t" "h' a = with_caption (trim t) (store s a)"
      by blast
    from a pre_ok have "is_image (store s a)" by simp
    then have "caption (with_caption (trim t) (store s a)) = Some (trim t)"
      by (cases "store s a") simp_all
    with t show "\<exists>t. ai (mf_file (store s a)) = Some t \<and>
              h' a = with_caption (trim t) (store s a) \<and> caption (h' a) = Some (trim t)" by simp
  qed
  have c5: "\<forall>a \<in> set (cs_media s). \<not> lacks_caption (store s a) \<longrightarrow> h' a = store s a"
    using keep pre_lack by blast
  from c1 c2 keep c4 c5 show ?thesis unfolding st by blast
qed

theorem captions_survive_failure_witness:
  "smartCaptionsEnabled three_photos \<and> captionStatus three_photos \<noteq> Generating \<and>
   isApiKeyAvailable three_photos \<and> truthy (Some ''key'') \<and>
   distinct (map (\<lambda>a. mf_id (store three_photos a)) (cs_media three_photos)) \<and>
   imagesToCaption three_photos = [1] @ 2 # [] \<and>
   failing_service (mf_file (store three_photos 1)) = Some '' A dog. '' \<and>
   failing_service (mf_file (store three_photos 2)) = None \<and>
   captionStatus (generateCaptions (Some ''key'') failing_service three_photos) = Error \<and>
   cs_media (generateCaptions (Some ''key'') failing_service three_photos) = [0, 1, 2] \<and>
   store (generateCaptions (Some ''key'') failing_service three_photos) 0 = photo ''a.png'' (Some ''A beach.'') \<and>
   store (generateCaptions (Some ''key'') failing_service three_photos) 1 = photo ''b.png'' (Some ''A dog.'') \<and>
   store (generateCaptions (Some ''key'') failing_service three_photos) 2 = photo ''c.png'' None"
proof -
  have a1: "smartCaptionsEnabled three_photos" and a2: "captionStatus three_photos \<noteq> Generating"
    and a3: "isApiKeyAvailable three_photos" and a4: "truthy (Some ''key'')"
    by (simp_all add: three_photos_def truthy_def)
  have a5: "distinct (map (\<lambda>a. mf_id (store three_photos a)) (cs_media three_photos))"
    by (simp add: three_photos_def photo_def)
  have a6: "imagesToCaption three_photos = [1] @ 2 # []"
    by (simp add: imagesToCaption_def three_photos_def photo_def truthy_def)
  have s1: "failing_service (mf_file (store three_photos 1)) = Some '' A dog. ''"
    by (simp add: failing_service_def three_photos_def photo_def)
  then have a7: "\<forall>a \<in> set [1]. failing_service (mf_file (store three_photos a)) \<noteq> None" by simp
  have a8: "failing_service (mf_file (store three_photos 2)) = None"
    by (simp add: failing_service_def three_photos_def photo_def)
  have tr: "trim '' A dog. '' = ''A dog.''"
    by (simp add: trim_def is_space_def)
  have m: "cs_media three_photos = [0, 1, 2]"
    and s0: "store three_photos 0 = photo ''a.png'' (Some ''A beach.'')"
    and s1': "store three_photos 1 = photo ''b.png'' None"
    and s2: "store three_photos 2 = photo ''c.png'' None"
    by (simp_all add: three_photos_def)
  note r = captions_survive_failure [OF a1 a2 a3 a4 a5 a6 a7 a8]
  from r have r1: "captionStatus (generateCaptions (Some ''key'') failing_service three_photos) = Error"
    and r2: "cs_media (generateCaptions (Some ''key'') failing_service three_photos) = [0, 1, 2]"
    by (simp_all add: m)
  from r have keep: "\<And>a. a \<notin> set [1::nat] \<Longrightarrow>
      store (generateCaptions (Some ''key'') failing_service three_photos) a = store three_photos a"
    by blast
  have r3: "store (generateCaptions (Some ''key'') failing_service three_photos) 0 = photo ''a.png'' (Some ''A beach.'')"
    using keep[of 0] by (simp add: s0)
  have r5: "store (generateCaptions (Some ''key'') failing_service three_photos) 2 = photo ''c.png'' None"
    using keep[of 2] by (simp add: s2)
  from r have "\<exists>t. failing_service (mf_file (store three_photos 1)) = Some t \<and>
      store (generateCaptions (Some ''key'') failing_service three_photos) 1 = with_caption (trim t) (store three_photos 1)"
    by auto
  then obtain t where t1: "failing_service (mf_file (store three_photos 1)) = Some t"
    and t2: "store (generateCaptions (Some ''key'') failing_service three_photos) 1 =
             with_caption (trim t) (store three_photos 1)"
    by blast
  from t1 s1 have "t = '' A dog. ''" by (simp only: option.inject)
  with t2 have r4: "store (generateCaptions (Some ''key'') failing_service three_photos) 1 =
      photo ''b.png'' (Some ''A dog.'')"
    by (simp only: s1' tr photo_def with_caption.simps)
  from a1 a2 a3 a4 a5 a6 s1 a8 r1 r2 r3 r4 r5 show ?thesis by blast
qed

subsection \<open>Media upload\<close>

lemma processFiles_appends:
  "\<exists>added. fst (processFiles files updatedMedia alerts) = updatedMedia @ added"
proof (induction files updatedMedia alerts rule: processFiles.induct)
  case (1 updatedMedia alerts)
  show ?case by simp
next
  case (2 k files updatedMedia alerts)
  let ?ni = "length (filter is_image updatedMedia)" and ?nv = "length (filter is_video updatedMedia)"
  let ?ty = "file_type (pk_file k)"
  consider (img_ok) "startsWith ?ty ''image/''" "?ni < MAX_IMAGES"
    | (img_full) "startsWith ?ty ''image/''" "\<not> ?ni < MAX_IMAGES"
    | (vid_long) "\<not> startsWith ?ty ''image/''" "startsWith ?ty ''video/''" "?nv < MAX_VIDEOS"
        "file_duration (pk_file k) > MAX_VIDEO_DURATION"
    | (vid_ok) "\<not> startsWith ?ty ''image/''" "startsWith ?ty ''video/''" "?nv < MAX_VIDEOS"
        "\<not> file_duration (pk_file k) > MAX_VIDEO_DURATION"
    | (vid_full) "\<not> startsWith ?ty ''image/''" "startsWith ?ty ''video/''" "\<not> ?nv < MAX_VIDEOS"
    | (other) "\<not> startsWith ?ty ''image/''" "\<not> startsWith ?ty ''video/''"
    by blast
  then show ?case
  proof cases
    case img_ok
    with "2.IH"(1)[OF refl refl img_ok] show ?thesis by (auto simp add: Let_def)
  next
    case img_full
    then show ?thesis by (simp add: Let_def)
  next
    case vid_long
    with "2.IH"(2)[OF refl refl vid_long] show ?thesis by (auto simp add: Let_def)
  next
    case vid_ok
    with "2.IH"(3)[OF refl refl vid_ok] show ?thesis by (auto simp add: Let_def)
  next
    case vid_full
    with "2.IH"(4)[OF refl refl vid_full] show ?thesis by (auto simp add: Let_def)
  next
    case other
    with "2.IH"(5)[OF refl refl other] show ?thesis by (auto simp add: Let_def)
  qed
qed

text \<open>
  Claim C10 at a batch where it fails. Thirty images are in the list and the batch is one
  more image followed by a ten second video: the image is refused with the alert, the
  \<^verbatim>\<open>break\<close> ends the loop, and the video, which is within every limit, is not added and
  no alert mentions it. In the sibling branch a refused second video does not end the loop:
  with one video in the list, the image that follows a refused video is added.
\<close>

theorem upload_break_drops_video:
  "handleMediaUpload [picked_image, picked_video] thirty_images =
     (thirty_images, [''Maximum of 30 images reached. Some images were not uploaded.'']) \<and>
   handleMediaUpload [picked_video, picked_image] [a_video] =
     ([a_video,
       ImageFile ''z.png-7'' \<lparr>file_name = ''z.png'', file_type = ''image/png'', file_duration = 0\<rparr>
         ''blob:z'' None],
      [''Maximum of 1 video reached. Some videos were not uploaded.''])"
  by code_simp

end
